theory Spec2Isabelle
  imports Main
begin

section \<open>Tickets and the ticket table\<close>

text \<open>
  A ticket row as the resolvers of \<^verbatim>\<open>src/server.js\<close> read and write it: the primary key,
  the title, the completion flag and the nullable \<^verbatim>\<open>parentId\<close>. The field \<^verbatim>\<open>id\<close> is named
  \<open>ticketId\<close> here, since \<open>id\<close> is the identity function of HOL. The \<^verbatim>\<open>children\<close> of the
  GraphQL type are not stored; they are the rows whose \<^verbatim>\<open>parentId\<close> is the ticket's id.
\<close>

record ticket =
  ticketId :: nat
  title :: string
  isCompleted :: bool
  parentId :: "nat option"

text \<open>The table: its rows in insertion order and the next primary key to hand out.\<close>

record store =
  rows :: "ticket list"
  nextId :: nat

text \<open>
  What a resolver can throw or reject with. The first three are the messages of the source:
  \<^verbatim>\<open>'Ticket not found'\<close>, \<^verbatim>\<open>'Parent ticket not found'\<close> and
  \<^verbatim>\<open>`Children ticket ${childrenId} does not exists`\<close>, which carries the offending id.
  \<open>ValidationError\<close> and \<open>NotFound\<close> are the rejections of the model layer: an empty
  title, and a \<^verbatim>\<open>parentId\<close> that references no ticket. The source has no error for a
  self-parent or for a cycle.
\<close>

datatype error =
    TicketNotFound
  | ParentTicketNotFound
  | ChildrenTicketDoesNotExist nat
  | ValidationError
  | NotFound

text \<open>What a resolver hands back: a boolean, one ticket, or an array of tickets.\<close>

datatype val = VBool bool | VTicket ticket | VTickets "ticket list"

text \<open>
  The state of a JavaScript promise. A promise that nobody resolves or rejects stays
  \<open>Pending\<close> for ever: the caller never gets an answer.
\<close>

datatype 'a promise = Pending | Resolved 'a | Rejected error

section \<open>The model layer\<close>

text \<open>
  The module \<^verbatim>\<open>./db\<close>, which defines \<^verbatim>\<open>models.Ticket\<close> (the table and the association
  between a ticket and its children), is imported by \<^verbatim>\<open>src/server.js\<close> but is not among
  the sources. The spec describes it as a keyed record store with point lookup, scan by
  predicate, create, field update and delete, and gives the data model of a ticket. Every
  definition of this section is modelled from that description; none of them compares
  a \<^verbatim>\<open>parentId\<close> with the ticket's own id or walks an ancestor chain.
\<close>

text \<open>
  Modelled from the spec: \<^verbatim>\<open>models.Ticket.findByPk\<close> of the missing \<^verbatim>\<open>./db\<close>, the point lookup
  by id; \<^verbatim>\<open>null\<close> is \<open>None\<close>.
\<close>

definition findByPk :: "store \<Rightarrow> nat \<Rightarrow> ticket option" where
  "findByPk s i = find (\<lambda>t. ticketId t = i) (rows s)"

text \<open>
  Modelled from the spec: \<^verbatim>\<open>models.Ticket.findAll({where: {parentId}})\<close> of the missing
  \<^verbatim>\<open>./db\<close>, the scan by the predicate \<^verbatim>\<open>parentId == p\<close>, in the order of the rows.
\<close>

definition findAll_parentId :: "store \<Rightarrow> nat option \<Rightarrow> ticket list" where
  "findAll_parentId s p = filter (\<lambda>t. parentId t = p) (rows s)"

text \<open>
  Modelled from the spec: \<^verbatim>\<open>ticket.getChildren()\<close>, the accessor of the association declared
  in the missing \<^verbatim>\<open>./db\<close>: the tickets whose \<^verbatim>\<open>parentId\<close> is this ticket's id.
\<close>

definition getChildren :: "store \<Rightarrow> ticket \<Rightarrow> ticket list" where
  "getChildren s t = findAll_parentId s (Some (ticketId t))"

text \<open>
  Modelled from the spec: \<^verbatim>\<open>models.Ticket.create\<close> of the missing \<^verbatim>\<open>./db\<close>. The id is unique
  and handed out on creation, \<^verbatim>\<open>parentId\<close> starts null, \<^verbatim>\<open>isCompleted\<close> defaults to false
  when it is not given, and a title is non-empty text: an empty one fails with
  \<open>ValidationError\<close> and nothing is stored.
\<close>

definition create :: "store \<Rightarrow> string \<Rightarrow> bool option \<Rightarrow> error + store \<times> ticket" where
  "create s ttl done =
     (if ttl = [] then Inl ValidationError
      else
        let t = \<lparr>ticketId = nextId s, title = ttl,
                 isCompleted = (case done of None \<Rightarrow> False | Some b \<Rightarrow> b),
                 parentId = None\<rparr>
        in Inr (s\<lparr>rows := rows s @ [t], nextId := Suc (nextId s)\<rparr>, t))"

text \<open>
  Modelled from the spec: \<^verbatim>\<open>ticket.update({field})\<close> of the missing \<^verbatim>\<open>./db\<close>, the field update.
  It sets the one field on the instance and writes it to the row with the instance's
  primary key; the promise yields the instance. Updating the title to the empty string
  fails with \<open>ValidationError\<close> and writes nothing. A \<^verbatim>\<open>parentId\<close> that is not null must
  reference an existing ticket: one that references no ticket fails with \<open>NotFound\<close> and
  writes nothing. Nothing else is checked about a \<^verbatim>\<open>parentId\<close>: it is not compared with the
  ticket's own id and no ancestor chain is walked.
\<close>

definition update_row :: "store \<Rightarrow> nat \<Rightarrow> (ticket \<Rightarrow> ticket) \<Rightarrow> store" where
  "update_row s i f = s\<lparr>rows := map (\<lambda>r. if ticketId r = i then f r else r) (rows s)\<rparr>"

definition update_title :: "store \<Rightarrow> ticket \<Rightarrow> string \<Rightarrow> error + store \<times> ticket" where
  "update_title s t ttl =
     (if ttl = [] then Inl ValidationError
      else Inr (update_row s (ticketId t) (\<lambda>r. r\<lparr>title := ttl\<rparr>), t\<lparr>title := ttl\<rparr>))"

definition update_isCompleted :: "store \<Rightarrow> ticket \<Rightarrow> bool \<Rightarrow> store \<times> ticket" where
  "update_isCompleted s t b =
     (update_row s (ticketId t) (\<lambda>r. r\<lparr>isCompleted := b\<rparr>), t\<lparr>isCompleted := b\<rparr>)"

definition update_parentId :: "store \<Rightarrow> ticket \<Rightarrow> nat option \<Rightarrow> error + store \<times> ticket" where
  "update_parentId s t p =
     (if (case p of None \<Rightarrow> False | Some q \<Rightarrow> findByPk s q = None) then Inl NotFound
      else Inr (update_row s (ticketId t) (\<lambda>r. r\<lparr>parentId := p\<rparr>), t\<lparr>parentId := p\<rparr>))"

text \<open>
  Modelled from the spec: \<^verbatim>\<open>ticket.destroy\<close> of the missing \<^verbatim>\<open>./db\<close>, the delete. The row of
  the ticket is removed and its children are orphaned: the \<^verbatim>\<open>parentId\<close> of every remaining
  row that pointed to the ticket becomes null. The subtree is not deleted.
\<close>

definition destroy :: "store \<Rightarrow> ticket \<Rightarrow> store" where
  "destroy s t =
     s\<lparr>rows := map (\<lambda>r. if parentId r = Some (ticketId t) then r\<lparr>parentId := None\<rparr> else r)
                  (filter (\<lambda>r. ticketId r \<noteq> ticketId t) (rows s))\<rparr>"

section \<open>Promises\<close>

text \<open>
  Calling \<^verbatim>\<open>resolve\<close> or \<^verbatim>\<open>reject\<close> on a promise that is already settled does nothing: the
  first call wins.
\<close>

fun settle :: "'a promise \<Rightarrow> 'a promise \<Rightarrow> 'a promise" where
  "settle Pending new = new"
| "settle old new = old"

text \<open>
  \<^verbatim>\<open>Promise.all\<close> over an array of \<open>n\<close> promises. \<open>settled\<close> lists the promises that
  have settled, in the order in time in which they did, each with its index in the array.
  The result is rejected with the first rejection in time, if there is one; it is resolved
  with the array of all values, in the order of the array, once all \<open>n\<close> promises are
  resolved; it is pending otherwise.
\<close>

fun firstRejection :: "(nat \<times> 'a promise) list \<Rightarrow> error option" where
  "firstRejection [] = None"
| "firstRejection ((k, Rejected e) # rest) = Some e"
| "firstRejection ((k, Resolved x) # rest) = firstRejection rest"
| "firstRejection ((k, Pending) # rest) = firstRejection rest"

definition resolvedAt :: "(nat \<times> 'a promise) list \<Rightarrow> nat \<Rightarrow> 'a option" where
  "resolvedAt settled k =
     (case map_of settled k of
        Some (Resolved x) \<Rightarrow> Some x
      | _ \<Rightarrow> None)"

definition promise_all :: "nat \<Rightarrow> (nat \<times> 'a promise) list \<Rightarrow> 'a list promise" where
  "promise_all n settled =
     (case firstRejection settled of
        Some e \<Rightarrow> Rejected e
      | None \<Rightarrow>
          (case those (map (resolvedAt settled) [0..<n]) of
             Some res \<Rightarrow> Resolved res
           | None \<Rightarrow> Pending))"

section \<open>The resolvers of \<^verbatim>\<open>src/server.js\<close>\<close>

text \<open>
  A query reads the store. A mutation takes the store and returns the store it leaves
  behind, once all the work it started is done, together with the state of the promise it
  returned.

  The two bulk reassignments start one lookup per child in a \<^verbatim>\<open>forEach\<close>, and nothing in
  the source fixes the order in which these lookups call back. That order is an argument
  of the model: \<open>order\<close> lists the positions in \<^verbatim>\<open>childrenIds\<close> in the order in which
  their lookups call back. It is a \<open>callbackOrder\<close> when every position occurs in it
  exactly once. The source starts all lookups before the first update is written; here
  each child is looked up when its callback runs, which finds the same tickets, since an
  update of \<^verbatim>\<open>parentId\<close> neither adds nor removes a row and the update sets the only field
  an earlier update could have changed.
\<close>

definition callbacks :: "nat list \<Rightarrow> nat list \<Rightarrow> (nat \<times> nat) list" where
  "callbacks childrenIds order =
     map (\<lambda>k. (k, childrenIds ! k)) (filter (\<lambda>k. k < length childrenIds) order)"

definition callbackOrder :: "nat list \<Rightarrow> nat list \<Rightarrow> bool" where
  "callbackOrder childrenIds order \<longleftrightarrow>
     distinct order \<and> set order = set [0..<length childrenIds]"

subsection \<open>Queries\<close>

definition tickets :: "store \<Rightarrow> ticket list" where
  "tickets s = findAll_parentId s None"

definition ticket_query :: "store \<Rightarrow> nat \<Rightarrow> ticket option" where
  "ticket_query s i = findByPk s i"

definition children :: "store \<Rightarrow> ticket \<Rightarrow> ticket list" where
  "children s parent = getChildren s parent"

subsection \<open>Mutations\<close>

definition createTicket :: "store \<Rightarrow> string \<Rightarrow> bool option \<Rightarrow> store \<times> val promise" where
  "createTicket s ttl done =
     (case create s ttl done of
        Inl e \<Rightarrow> (s, Rejected e)
      | Inr (s', t) \<Rightarrow> (s', Resolved (VTicket t)))"

definition updateTicket :: "store \<Rightarrow> nat \<Rightarrow> string \<Rightarrow> store \<times> val promise" where
  "updateTicket s i ttl =
     (case findByPk s i of
        None \<Rightarrow> (s, Rejected TicketNotFound)
      | Some t \<Rightarrow>
          (case update_title s t ttl of
             Inl e \<Rightarrow> (s, Rejected e)
           | Inr (s', t') \<Rightarrow> (s', Resolved (VTicket t'))))"

definition toggleTicket :: "store \<Rightarrow> nat \<Rightarrow> bool \<Rightarrow> store \<times> val promise" where
  "toggleTicket s i b =
     (case findByPk s i of
        None \<Rightarrow> (s, Rejected TicketNotFound)
      | Some t \<Rightarrow>
          (case update_isCompleted s t b of (s', t') \<Rightarrow> (s', Resolved (VTicket t'))))"

text \<open>
  \<^verbatim>\<open>removeTicket\<close> answers \<^verbatim>\<open>false\<close> for an unknown id and \<^verbatim>\<open>true\<close> once the row is
  destroyed. Its \<^verbatim>\<open>catch\<close> branch, which turns a failure of the storage into \<^verbatim>\<open>false\<close>, has
  no counterpart here: \<open>destroy\<close> of the model layer above does not fail.
\<close>

definition removeTicket :: "store \<Rightarrow> nat \<Rightarrow> store \<times> val promise" where
  "removeTicket s i =
     (case findByPk s i of
        None \<Rightarrow> (s, Resolved (VBool False))
      | Some t \<Rightarrow> (destroy s t, Resolved (VBool True)))"

text \<open>
  One child of \<^verbatim>\<open>addChildrenToTicket\<close>: the callback of its lookup. For an unknown id it
  calls \<^verbatim>\<open>reject\<close> and then fails on \<^verbatim>\<open>ticket.update\<close> of \<^verbatim>\<open>null\<close>, which the \<^verbatim>\<open>catch\<close>
  only logs; for a known id it starts the update and calls \<^verbatim>\<open>resolve\<close> with the promise
  of the update. All children share the one promise the resolver returned, so the first
  callback to run settles it.
\<close>

definition addChild :: "nat \<Rightarrow> store \<times> val promise \<Rightarrow> nat \<Rightarrow> store \<times> val promise" where
  "addChild parent sp childrenId =
     (case sp of (s, pr) \<Rightarrow>
        (case findByPk s childrenId of
           None \<Rightarrow> (s, settle pr (Rejected (ChildrenTicketDoesNotExist childrenId)))
         | Some t \<Rightarrow>
             (case update_parentId s t (Some parent) of
                Inl e \<Rightarrow> (s, settle pr (Rejected e))
              | Inr (s', t') \<Rightarrow> (s', settle pr (Resolved (VTicket t'))))))"

definition addChildrenToTicket ::
    "store \<Rightarrow> nat \<Rightarrow> nat list \<Rightarrow> nat list \<Rightarrow> store \<times> val promise" where
  "addChildrenToTicket s parent childrenIds order =
     (case findByPk s parent of
        None \<Rightarrow> (s, Rejected ParentTicketNotFound)
      | Some t \<Rightarrow>
          foldl (addChild parent) (s, Pending) (map snd (callbacks childrenIds order)))"

text \<open>
  One child of \<^verbatim>\<open>addChildrenToTicketReturningArray\<close>: the same callback, but every child
  has a promise of its own, at the child's position in the array \<^verbatim>\<open>promises\<close>.
\<close>

definition addChildPromise ::
    "nat \<Rightarrow> store \<times> (nat \<times> ticket promise) list \<Rightarrow> nat \<times> nat \<Rightarrow>
     store \<times> (nat \<times> ticket promise) list" where
  "addChildPromise parent sp call =
     (case sp of (s, settled) \<Rightarrow>
        (case call of (k, childrenId) \<Rightarrow>
           (case findByPk s childrenId of
              None \<Rightarrow> (s, settled @ [(k, Rejected (ChildrenTicketDoesNotExist childrenId))])
            | Some t \<Rightarrow>
                (case update_parentId s t (Some parent) of
                   Inl e \<Rightarrow> (s, settled @ [(k, Rejected e)])
                 | Inr (s', t') \<Rightarrow> (s', settled @ [(k, Resolved t')])))))"

definition addChildrenToTicketReturningArray ::
    "store \<Rightarrow> nat \<Rightarrow> nat list \<Rightarrow> nat list \<Rightarrow> store \<times> val promise" where
  "addChildrenToTicketReturningArray s parent childrenIds order =
     (case findByPk s parent of
        None \<Rightarrow> (s, Rejected ParentTicketNotFound)
      | Some t \<Rightarrow>
          (case foldl (addChildPromise parent) (s, []) (callbacks childrenIds order) of
             (s', settled) \<Rightarrow>
               (s', case promise_all (length childrenIds) settled of
                      Resolved res \<Rightarrow> Resolved (VTickets res)
                    | Rejected e \<Rightarrow> Rejected e
                    | Pending \<Rightarrow> Pending)))"

definition setParentOfTicket :: "store \<Rightarrow> nat \<Rightarrow> nat \<Rightarrow> store \<times> val promise" where
  "setParentOfTicket s parent childId =
     (case findByPk s childId of
        None \<Rightarrow> (s, Resolved (VBool False))
      | Some t \<Rightarrow>
          (case update_parentId s t (Some parent) of
             Inl e \<Rightarrow> (s, Rejected e)
           | Inr (s', t') \<Rightarrow> (s', Resolved (VTicket t'))))"

definition removeParentFromTicket :: "store \<Rightarrow> nat \<Rightarrow> store \<times> val promise" where
  "removeParentFromTicket s i =
     (case findByPk s i of
        None \<Rightarrow> (s, Resolved (VBool False))
      | Some t \<Rightarrow>
          (case update_parentId s t None of
             Inl e \<Rightarrow> (s, Rejected e)
           | Inr (s', t') \<Rightarrow> (s', Resolved (VTicket t'))))"

section \<open>The parent graph\<close>

text \<open>
  The edges of the parent graph: one edge from a row's id to its \<^verbatim>\<open>parentId\<close> for every row
  whose \<^verbatim>\<open>parentId\<close> is not null. The ancestor chain of a ticket follows these edges.
\<close>

fun parentEdges :: "ticket list \<Rightarrow> (nat \<times> nat) list" where
  "parentEdges [] = []"
| "parentEdges (t # ts) =
     (case parentId t of
        None \<Rightarrow> parentEdges ts
      | Some p \<Rightarrow> (ticketId t, p) # parentEdges ts)"

definition parentRel :: "store \<Rightarrow> (nat \<times> nat) set" where
  "parentRel s = set (parentEdges (rows s))"

text \<open>
  \<open>reaches s a b\<close>: walking the ancestor chain from \<open>a\<close>, with \<open>a\<close> itself as its start,
  arrives at \<open>b\<close>.
\<close>

definition reaches :: "store \<Rightarrow> nat \<Rightarrow> nat \<Rightarrow> bool" where
  "reaches s a b \<longleftrightarrow> a = b \<or> (a, b) \<in> (parentRel s)\<^sup>+"

text \<open>
  \<open>revisits s T\<close>: following \<^verbatim>\<open>parentId\<close> from \<open>T\<close>, one step or more, comes back to \<open>T\<close>.
  A store is acyclic when its parent graph is; that is, when no ticket is revisited
  (lemma \<open>acyclicStore_never_revisits\<close> below).
\<close>

definition revisits :: "store \<Rightarrow> nat \<Rightarrow> bool" where
  "revisits s T \<longleftrightarrow> (T, T) \<in> (parentRel s)\<^sup>+"

definition acyclicStore :: "store \<Rightarrow> bool" where
  "acyclicStore s \<longleftrightarrow> acyclic (parentRel s)"

text \<open>Two stores used as concrete inputs.\<close>

definition epic :: ticket where
  "epic = \<lparr>ticketId = 1, title = ''Epic'', isCompleted = False, parentId = None\<rparr>"

definition story :: ticket where
  "story = \<lparr>ticketId = 2, title = ''Story'', isCompleted = False, parentId = None\<rparr>"

definition twoRoots :: store where
  "twoRoots = \<lparr>rows = [epic, story], nextId = 3\<rparr>"

definition epicWithStory :: store where
  "epicWithStory = \<lparr>rows = [epic, story\<lparr>parentId := Some 1\<rparr>], nextId = 3\<rparr>"

section \<open>Facts about the model layer\<close>

subsection \<open>Lookups and row updates\<close>

lemma findByPk_None_iff: "findByPk s i = None \<longleftrightarrow> i \<notin> ticketId ` set (rows s)"
  by (auto simp: findByPk_def find_None_iff)

lemma findByPk_SomeD: "findByPk s i = Some t \<Longrightarrow> t \<in> set (rows s) \<and> ticketId t = i"
  by (auto simp: findByPk_def find_Some_iff)

lemma map_upd_absent:
  "i \<notin> ticketId ` set ts \<Longrightarrow> map (\<lambda>r. if ticketId r = i then f r else r) ts = ts"
  by (induction ts) auto

lemma rows_update_row:
  "rows (update_row s i f) = map (\<lambda>r. if ticketId r = i then f r else r) (rows s)"
  by (simp add: update_row_def)

lemma nextId_update_row: "nextId (update_row s i f) = nextId s"
  by (simp add: update_row_def)

lemma update_row_absent: "findByPk s i = None \<Longrightarrow> update_row s i f = s"
  by (simp add: update_row_def findByPk_None_iff map_upd_absent)

subsection \<open>The edges after each kind of write\<close>

lemma set_parentEdges:
  "set (parentEdges ts) = {(ticketId t, p) | t p. t \<in> set ts \<and> parentId t = Some p}"
  by (induction ts) (auto split: option.splits)

lemma parentRel_iff:
  "(a, b) \<in> parentRel s \<longleftrightarrow> (\<exists>t \<in> set (rows s). ticketId t = a \<and> parentId t = Some b)"
  by (auto simp: parentRel_def set_parentEdges)

lemma acyclicStore_acyclic: "acyclicStore s \<longleftrightarrow> acyclic (parentRel s)"
  by (simp add: acyclicStore_def)

lemma reaches_rtrancl: "reaches s a b \<longleftrightarrow> (a, b) \<in> (parentRel s)\<^sup>*"
  by (auto simp: reaches_def rtrancl_eq_or_trancl)

lemma acyclicStore_never_revisits: "acyclicStore s \<longleftrightarrow> (\<forall>T. \<not> revisits s T)"
  by (simp add: acyclicStore_def revisits_def acyclic_def)

lemma parentEdges_same_fields:
  "(\<And>r. ticketId (f r) = ticketId r) \<Longrightarrow> (\<And>r. parentId (f r) = parentId r) \<Longrightarrow>
   parentEdges (map (\<lambda>r. if ticketId r = i then f r else r) ts) = parentEdges ts"
  by (induction ts) (auto split: option.splits)

lemma parentRel_same_fields:
  "(\<And>r. ticketId (f r) = ticketId r) \<Longrightarrow> (\<And>r. parentId (f r) = parentId r) \<Longrightarrow>
   parentRel (update_row s i f) = parentRel s"
  by (simp add: parentRel_def rows_update_row parentEdges_same_fields)

lemma parentEdges_set_parent:
  "set (parentEdges (map (\<lambda>r. if ticketId r = c then r\<lparr>parentId := Some p\<rparr> else r) ts)) =
     {(a, b) \<in> set (parentEdges ts). a \<noteq> c} \<union>
     (if c \<in> ticketId ` set ts then {(c, p)} else {})"
  by (induction ts) (auto split: option.splits)

lemma parentRel_set_parent:
  "parentRel (update_row s c (\<lambda>r. r\<lparr>parentId := Some p\<rparr>)) =
     {(a, b) \<in> parentRel s. a \<noteq> c} \<union> (if c \<in> ticketId ` set (rows s) then {(c, p)} else {})"
  by (simp only: parentRel_def rows_update_row parentEdges_set_parent)

lemma parentEdges_clear_parent:
  "set (parentEdges (map (\<lambda>r. if ticketId r = c then r\<lparr>parentId := None\<rparr> else r) ts)) =
     {(a, b) \<in> set (parentEdges ts). a \<noteq> c}"
  by (induction ts) (auto split: option.splits)

lemma parentRel_clear_parent:
  "parentRel (update_row s c (\<lambda>r. r\<lparr>parentId := None\<rparr>)) = {(a, b) \<in> parentRel s. a \<noteq> c}"
  by (simp only: parentRel_def rows_update_row parentEdges_clear_parent)

lemma parentEdges_destroy:
  "set (parentEdges (map (\<lambda>r. if parentId r = Some i then r\<lparr>parentId := None\<rparr> else r)
                        (filter (\<lambda>r. ticketId r \<noteq> i) ts))) \<subseteq> set (parentEdges ts)"
  by (induction ts) (auto split: option.splits)

lemma parentRel_destroy: "parentRel (destroy s t) \<subseteq> parentRel s"
  using parentEdges_destroy [of "ticketId t" "rows s"] by (simp add: parentRel_def destroy_def)

lemma parentEdges_append: "parentEdges (ts @ us) = parentEdges ts @ parentEdges us"
  by (induction ts) (auto split: option.splits)

lemma parentRel_create: "create s ttl d = Inr (s', t) \<Longrightarrow> parentRel s' = parentRel s"
  by (auto simp: parentRel_def create_def Let_def parentEdges_append split: if_splits)

subsection \<open>Paths in a graph that gains an edge\<close>

lemma rtrancl_insert_into_source:
  "(p, x) \<in> (insert (c, p) R)\<^sup>* \<Longrightarrow> (p, x) \<in> R\<^sup>*"
  by (induction rule: rtrancl_induct) auto

lemma acyclic_add_edges:
  "acyclic R \<Longrightarrow> \<forall>c \<in> set cs. (p, c) \<notin> R\<^sup>* \<Longrightarrow> acyclic (R \<union> (\<lambda>c. (c, p)) ` set cs)"
proof (induction cs arbitrary: R)
  case Nil
  then show ?case by simp
next
  case (Cons c cs)
  have "acyclic (insert (c, p) R)"
    using Cons.prems by (simp add: acyclic_insert)
  moreover have "\<forall>c' \<in> set cs. (p, c') \<notin> (insert (c, p) R)\<^sup>*"
    using Cons.prems by (auto dest: rtrancl_insert_into_source)
  ultimately have "acyclic (insert (c, p) R \<union> (\<lambda>c. (c, p)) ` set cs)"
    by (rule Cons.IH)
  then show ?case by simp
qed

lemma rtrancl_avoid_target:
  "(x, c) \<in> R\<^sup>* \<Longrightarrow> (x, c) \<in> {(a, b) \<in> R. a \<noteq> c}\<^sup>*"
proof (induction rule: converse_rtrancl_induct)
  case base
  then show ?case by simp
next
  case (step x y)
  show ?case
  proof (cases "x = c")
    case True
    then show ?thesis by simp
  next
    case False
    with step.hyps have "(x, y) \<in> {(a, b) \<in> R. a \<noteq> c}" by simp
    then show ?thesis using step.IH by (rule converse_rtrancl_into_rtrancl)
  qed
qed

lemma setParent_acyclic_iff:
  assumes ac: "acyclicStore s" and ex: "findByPk s c \<noteq> None"
  shows "acyclicStore (update_row s c (\<lambda>r. r\<lparr>parentId := Some p\<rparr>)) \<longleftrightarrow> \<not> reaches s p c"
proof -
  define R where "R = parentRel s"
  define R' where "R' = parentRel (update_row s c (\<lambda>r. r\<lparr>parentId := Some p\<rparr>))"
  define Q where "Q = {(a, b) \<in> R. a \<noteq> c}"
  have R': "R' = Q \<union> {(c, p)}"
    using ex by (simp add: R'_def R_def Q_def parentRel_set_parent findByPk_None_iff)
  have QR': "Q \<subseteq> R'" and cp: "(c, p) \<in> R'" and R'R: "R' \<subseteq> insert (c, p) R"
    by (auto simp: R' Q_def)
  have "\<not> acyclic R'" if "(p, c) \<in> R\<^sup>*"
  proof -
    from that have "(p, c) \<in> Q\<^sup>*"
      unfolding Q_def by (rule rtrancl_avoid_target)
    moreover have "Q\<^sup>* \<subseteq> R'\<^sup>*" using QR' by (rule rtrancl_mono)
    ultimately have "(p, c) \<in> R'\<^sup>*" by (rule rev_subsetD)
    with cp have "(c, c) \<in> R'\<^sup>+" by (rule rtrancl_into_trancl2)
    then show ?thesis unfolding acyclic_def by blast
  qed
  moreover have "acyclic R'" if "(p, c) \<notin> R\<^sup>*"
  proof -
    have "acyclic R" using ac by (simp add: acyclicStore_acyclic R_def)
    with that have "acyclic (insert (c, p) R)" by simp
    then show ?thesis using R'R by (rule acyclic_subset)
  qed
  ultimately have "acyclic R' \<longleftrightarrow> (p, c) \<notin> R\<^sup>*" by blast
  then show ?thesis
    by (simp add: acyclicStore_acyclic reaches_rtrancl R_def R'_def)
qed

subsection \<open>Lookups after a row update\<close>

lemmas concrete_defs = epic_def story_def twoRoots_def epicWithStory_def

lemma find_map_upd:
  "(\<And>r. ticketId (f r) = ticketId r) \<Longrightarrow>
   find (\<lambda>t. ticketId t = j) (map (\<lambda>r. if ticketId r = i then f r else r) ts) =
     (if j = i then map_option f (find (\<lambda>t. ticketId t = j) ts)
      else find (\<lambda>t. ticketId t = j) ts)"
  by (induction ts) auto

lemma findByPk_update_row:
  "(\<And>r. ticketId (f r) = ticketId r) \<Longrightarrow>
   findByPk (update_row s i f) j =
     (if j = i then map_option f (findByPk s j) else findByPk s j)"
  by (simp only: findByPk_def rows_update_row find_map_upd)

lemma reparent_step:
  "map (\<lambda>r. if ticketId r \<in> set cs then r\<lparr>parentId := Some p\<rparr> else r)
     (map (\<lambda>r. if ticketId r = c then r\<lparr>parentId := Some p\<rparr> else r) ts) =
   map (\<lambda>r. if ticketId r \<in> set (c # cs) then r\<lparr>parentId := Some p\<rparr> else r) ts"
  by (induction ts) auto

lemma parentEdges_reparent:
  "set (parentEdges (map (\<lambda>r. if ticketId r \<in> set cs then r\<lparr>parentId := Some p\<rparr> else r) ts))
     \<subseteq> set (parentEdges ts) \<union> (\<lambda>c. (c, p)) ` set cs"
proof (induction ts)
  case Nil
  then show ?case by simp
next
  case (Cons t ts)
  show ?case
  proof (cases "ticketId t \<in> set cs")
    case True
    then show ?thesis using Cons.IH by (cases "parentId t") auto
  next
    case False
    then show ?thesis using Cons.IH by (cases "parentId t") auto
  qed
qed

lemma fst_updateTicket:
  "fst (updateTicket s i ttl) =
     (if findByPk s i \<noteq> None \<and> ttl \<noteq> [] then update_row s i (\<lambda>r. r\<lparr>title := ttl\<rparr>) else s)"
proof (cases "findByPk s i")
  case None
  then show ?thesis by (simp add: updateTicket_def)
next
  case (Some t)
  then have "ticketId t = i" by (simp add: findByPk_SomeD)
  with Some show ?thesis by (simp add: updateTicket_def update_title_def)
qed

lemma fst_toggleTicket:
  "fst (toggleTicket s i b) = update_row s i (\<lambda>r. r\<lparr>isCompleted := b\<rparr>)"
proof (cases "findByPk s i")
  case None
  then show ?thesis by (simp add: toggleTicket_def update_row_absent)
next
  case (Some t)
  then have "ticketId t = i" by (simp add: findByPk_SomeD)
  with Some show ?thesis by (simp add: toggleTicket_def update_isCompleted_def)
qed

lemma acyclic_no_edges: "acyclic {}"
  by (simp add: acyclic_def)

subsection \<open>Updates of the parent\<close>

lemma update_parentId_None:
  "update_parentId s t None =
     Inr (update_row s (ticketId t) (\<lambda>r. r\<lparr>parentId := None\<rparr>), t\<lparr>parentId := None\<rparr>)"
  by (simp add: update_parentId_def)

lemma update_parentId_known:
  "findByPk s p \<noteq> None \<Longrightarrow>
   update_parentId s t (Some p) =
     Inr (update_row s (ticketId t) (\<lambda>r. r\<lparr>parentId := Some p\<rparr>), t\<lparr>parentId := Some p\<rparr>)"
  by (simp add: update_parentId_def)

lemma update_parentId_unknown:
  "findByPk s p = None \<Longrightarrow> update_parentId s t (Some p) = Inl NotFound"
  by (simp add: update_parentId_def)

lemma known_after_update_row:
  "(\<And>r. ticketId (f r) = ticketId r) \<Longrightarrow>
   findByPk (update_row s i f) j = None \<longleftrightarrow> findByPk s j = None"
  by (simp add: findByPk_update_row)

lemma known_after_set_parent:
  "findByPk (update_row s c (\<lambda>r. r\<lparr>parentId := q\<rparr>)) j = None \<longleftrightarrow> findByPk s j = None"
  by (rule known_after_update_row) simp

subsection \<open>The store each single-ticket mutation leaves\<close>

lemma fst_removeParentFromTicket:
  "fst (removeParentFromTicket s i) = update_row s i (\<lambda>r. r\<lparr>parentId := None\<rparr>)"
proof (cases "findByPk s i")
  case None
  then show ?thesis by (simp add: removeParentFromTicket_def update_row_absent)
next
  case (Some t)
  then have "ticketId t = i" by (simp add: findByPk_SomeD)
  with Some show ?thesis by (simp add: removeParentFromTicket_def update_parentId_None)
qed

lemma fst_setParentOfTicket:
  "findByPk s p \<noteq> None \<Longrightarrow>
   fst (setParentOfTicket s p c) = update_row s c (\<lambda>r. r\<lparr>parentId := Some p\<rparr>)"
proof (cases "findByPk s c")
  case None
  then show ?thesis by (simp add: setParentOfTicket_def update_row_absent)
next
  case (Some t)
  assume "findByPk s p \<noteq> None"
  moreover from Some have "ticketId t = c" by (simp add: findByPk_SomeD)
  ultimately show ?thesis using Some by (simp add: setParentOfTicket_def update_parentId_known)
qed

lemma snd_setParentOfTicket:
  "findByPk s c = Some t \<Longrightarrow> findByPk s p \<noteq> None \<Longrightarrow>
   snd (setParentOfTicket s p c) = Resolved (VTicket (t\<lparr>parentId := Some p\<rparr>))"
  by (simp add: setParentOfTicket_def update_parentId_known)

lemma removeParentFromTicket_existing:
  "findByPk s i = Some t \<Longrightarrow>
     snd (removeParentFromTicket s i) = Resolved (VTicket (t\<lparr>parentId := None\<rparr>)) \<and>
     findByPk (fst (removeParentFromTicket s i)) i = Some (t\<lparr>parentId := None\<rparr>) \<and>
     t\<lparr>parentId := None\<rparr> \<in> set (tickets (fst (removeParentFromTicket s i)))"
proof -
  assume found: "findByPk s i = Some t"
  have res: "snd (removeParentFromTicket s i) = Resolved (VTicket (t\<lparr>parentId := None\<rparr>))"
    using found by (simp add: removeParentFromTicket_def update_parentId_None)
  have look: "findByPk (fst (removeParentFromTicket s i)) i = Some (t\<lparr>parentId := None\<rparr>)"
    using found by (simp add: fst_removeParentFromTicket findByPk_update_row)
  have "t\<lparr>parentId := None\<rparr> \<in> set (rows (fst (removeParentFromTicket s i)))"
    using look by (simp add: findByPk_SomeD)
  then have "t\<lparr>parentId := None\<rparr> \<in> set (tickets (fst (removeParentFromTicket s i)))"
    by (simp add: tickets_def findAll_parentId_def)
  with res look show ?thesis by simp
qed

subsection \<open>The order of the callbacks\<close>

lemma snd_callbacks:
  "map snd (callbacks cs order) = map ((!) cs) (filter (\<lambda>k. k < length cs) order)"
  by (simp add: callbacks_def comp_def)

lemma called_subset: "set (map snd (callbacks cs order)) \<subseteq> set cs"
  by (auto simp: snd_callbacks)

lemma called_all: "callbackOrder cs order \<Longrightarrow> set (map snd (callbacks cs order)) = set cs"
proof -
  assume "callbackOrder cs order"
  then have "set order = {0..<length cs}" by (simp add: callbackOrder_def)
  then have "set (filter (\<lambda>k. k < length cs) order) = {0..<length cs}" by auto
  then have "set (map snd (callbacks cs order)) = (!) cs ` {0..<length cs}"
    by (simp add: snd_callbacks)
  also have "\<dots> = set cs" by (auto simp: set_conv_nth)
  finally show ?thesis .
qed

subsection \<open>The store after a bulk reassignment\<close>

lemma fst_addChild:
  "findByPk s p \<noteq> None \<Longrightarrow>
   fst (addChild p (s, pr) c) = update_row s c (\<lambda>r. r\<lparr>parentId := Some p\<rparr>)"
proof (cases "findByPk s c")
  case None
  then show ?thesis by (simp add: addChild_def update_row_absent)
next
  case (Some t)
  assume "findByPk s p \<noteq> None"
  moreover from Some have "ticketId t = c" by (simp add: findByPk_SomeD)
  ultimately show ?thesis using Some by (simp add: addChild_def update_parentId_known)
qed

lemma fst_addChildPromise:
  "findByPk s p \<noteq> None \<Longrightarrow>
   fst (addChildPromise p (s, st) (k, c)) = update_row s c (\<lambda>r. r\<lparr>parentId := Some p\<rparr>)"
proof (cases "findByPk s c")
  case None
  then show ?thesis by (simp add: addChildPromise_def update_row_absent)
next
  case (Some t)
  assume "findByPk s p \<noteq> None"
  moreover from Some have "ticketId t = c" by (simp add: findByPk_SomeD)
  ultimately show ?thesis using Some by (simp add: addChildPromise_def update_parentId_known)
qed

lemma fst_foldl_addChild:
  "findByPk s p \<noteq> None \<Longrightarrow>
   fst (foldl (addChild p) (s, pr) cs) =
     s\<lparr>rows := map (\<lambda>r. if ticketId r \<in> set cs then r\<lparr>parentId := Some p\<rparr> else r) (rows s)\<rparr>"
proof (induction cs arbitrary: s pr)
  case Nil
  then show ?case by simp
next
  case (Cons c cs)
  obtain s1 pr1 where step: "addChild p (s, pr) c = (s1, pr1)" by (cases "addChild p (s, pr) c")
  have s1: "s1 = update_row s c (\<lambda>r. r\<lparr>parentId := Some p\<rparr>)"
    using fst_addChild [OF Cons.prems, of pr c] step by simp
  have "findByPk s1 p \<noteq> None"
    using Cons.prems by (simp add: s1 known_after_set_parent)
  then have "fst (foldl (addChild p) (s1, pr1) cs) =
     s1\<lparr>rows := map (\<lambda>r. if ticketId r \<in> set cs then r\<lparr>parentId := Some p\<rparr> else r) (rows s1)\<rparr>"
    by (rule Cons.IH)
  then show ?case
    by (simp only: foldl_Cons step) (simp add: s1 update_row_def reparent_step)
qed

lemma fst_foldl_addChildPromise:
  "findByPk s p \<noteq> None \<Longrightarrow>
   fst (foldl (addChildPromise p) (s, st) calls) =
     s\<lparr>rows := map (\<lambda>r. if ticketId r \<in> set (map snd calls) then r\<lparr>parentId := Some p\<rparr> else r)
                   (rows s)\<rparr>"
proof (induction calls arbitrary: s st)
  case Nil
  then show ?case by simp
next
  case (Cons call calls)
  obtain k c where call: "call = (k, c)" by (cases call)
  obtain s1 st1 where step: "addChildPromise p (s, st) (k, c) = (s1, st1)"
    by (cases "addChildPromise p (s, st) (k, c)")
  have s1: "s1 = update_row s c (\<lambda>r. r\<lparr>parentId := Some p\<rparr>)"
    using fst_addChildPromise [OF Cons.prems, of st k c] step by simp
  have "findByPk s1 p \<noteq> None"
    using Cons.prems by (simp add: s1 known_after_set_parent)
  then have "fst (foldl (addChildPromise p) (s1, st1) calls) =
     s1\<lparr>rows := map (\<lambda>r. if ticketId r \<in> set (map snd calls) then r\<lparr>parentId := Some p\<rparr> else r)
                    (rows s1)\<rparr>"
    by (rule Cons.IH)
  then show ?case
    by (simp only: foldl_Cons call step) (simp add: s1 update_row_def reparent_step)
qed

lemma addChildren_unknown_parent:
  "findByPk s p = None \<Longrightarrow>
     addChildrenToTicket s p cs order = (s, Rejected ParentTicketNotFound) \<and>
     addChildrenToTicketReturningArray s p cs order = (s, Rejected ParentTicketNotFound)"
  by (simp add: addChildrenToTicket_def addChildrenToTicketReturningArray_def)

lemma fst_addChildrenToTicket_called:
  "findByPk s p \<noteq> None \<Longrightarrow>
   fst (addChildrenToTicket s p cs order) =
     s\<lparr>rows := map (\<lambda>r. if ticketId r \<in> set (map snd (callbacks cs order))
                          then r\<lparr>parentId := Some p\<rparr> else r) (rows s)\<rparr>"
proof -
  assume known: "findByPk s p \<noteq> None"
  then obtain t where t: "findByPk s p = Some t" by auto
  show ?thesis
    using fst_foldl_addChild [OF known, of Pending "map snd (callbacks cs order)"]
    by (simp add: addChildrenToTicket_def t)
qed

lemma fst_addChildrenToTicketReturningArray_called:
  "findByPk s p \<noteq> None \<Longrightarrow>
   fst (addChildrenToTicketReturningArray s p cs order) =
     s\<lparr>rows := map (\<lambda>r. if ticketId r \<in> set (map snd (callbacks cs order))
                          then r\<lparr>parentId := Some p\<rparr> else r) (rows s)\<rparr>"
proof -
  assume known: "findByPk s p \<noteq> None"
  then obtain t where t: "findByPk s p = Some t" by auto
  obtain s' st where f: "foldl (addChildPromise p) (s, []) (callbacks cs order) = (s', st)"
    by (cases "foldl (addChildPromise p) (s, []) (callbacks cs order)")
  have "s' = s\<lparr>rows := map (\<lambda>r. if ticketId r \<in> set (map snd (callbacks cs order))
                          then r\<lparr>parentId := Some p\<rparr> else r) (rows s)\<rparr>"
    using fst_foldl_addChildPromise [OF known, of "[]" "callbacks cs order"] f by simp
  then show ?thesis
    by (simp add: addChildrenToTicketReturningArray_def t f)
qed

lemma fst_addChildrenToTicket:
  "findByPk s p \<noteq> None \<Longrightarrow> callbackOrder cs order \<Longrightarrow>
   fst (addChildrenToTicket s p cs order) =
     s\<lparr>rows := map (\<lambda>r. if ticketId r \<in> set cs then r\<lparr>parentId := Some p\<rparr> else r) (rows s)\<rparr>"
  using fst_addChildrenToTicket_called [of s p cs order] called_all [of cs order] by simp

lemma fst_addChildrenToTicketReturningArray:
  "findByPk s p \<noteq> None \<Longrightarrow> callbackOrder cs order \<Longrightarrow>
   fst (addChildrenToTicketReturningArray s p cs order) =
     s\<lparr>rows := map (\<lambda>r. if ticketId r \<in> set cs then r\<lparr>parentId := Some p\<rparr> else r) (rows s)\<rparr>"
  using fst_addChildrenToTicketReturningArray_called [of s p cs order] called_all [of cs order]
  by simp

subsection \<open>What the bulk reassignments return\<close>

lemma childOutcome_after_update:
  "(case findByPk (update_row s c' (\<lambda>r. r\<lparr>parentId := Some p\<rparr>)) c of
      None \<Rightarrow> Rejected (ChildrenTicketDoesNotExist c)
    | Some t \<Rightarrow> Resolved (t\<lparr>parentId := Some p\<rparr>)) =
   (case findByPk s c of
      None \<Rightarrow> Rejected (ChildrenTicketDoesNotExist c)
    | Some t \<Rightarrow> Resolved (t\<lparr>parentId := Some p\<rparr>))"
  by (simp add: findByPk_update_row split: option.splits)

lemma snd_addChildPromise:
  "findByPk s p \<noteq> None \<Longrightarrow>
   snd (addChildPromise p (s, st) (k, c)) =
     st @ [(k, case findByPk s c of
                 None \<Rightarrow> Rejected (ChildrenTicketDoesNotExist c)
               | Some t \<Rightarrow> Resolved (t\<lparr>parentId := Some p\<rparr>))]"
  by (simp add: addChildPromise_def update_parentId_known split: option.splits)

lemma snd_foldl_addChildPromise:
  "findByPk s p \<noteq> None \<Longrightarrow>
   snd (foldl (addChildPromise p) (s, st) calls) =
     st @ map (\<lambda>(k, c). (k, case findByPk s c of
                      None \<Rightarrow> Rejected (ChildrenTicketDoesNotExist c)
                    | Some t \<Rightarrow> Resolved (t\<lparr>parentId := Some p\<rparr>))) calls"
proof (induction calls arbitrary: s st)
  case Nil
  then show ?case by simp
next
  case (Cons call calls)
  obtain k c where call: "call = (k, c)" by (cases call)
  obtain s1 st1 where step: "addChildPromise p (s, st) (k, c) = (s1, st1)"
    by (cases "addChildPromise p (s, st) (k, c)")
  have s1: "s1 = update_row s c (\<lambda>r. r\<lparr>parentId := Some p\<rparr>)"
    using fst_addChildPromise [OF Cons.prems, of st k c] step by simp
  have st1: "st1 = st @ [(k, case findByPk s c of
                 None \<Rightarrow> Rejected (ChildrenTicketDoesNotExist c)
               | Some t \<Rightarrow> Resolved (t\<lparr>parentId := Some p\<rparr>))]"
    using snd_addChildPromise [OF Cons.prems, of st k c] step by simp
  have "findByPk s1 p \<noteq> None"
    using Cons.prems by (simp add: s1 known_after_set_parent)
  then have "snd (foldl (addChildPromise p) (s1, st1) calls) =
     st1 @ map (\<lambda>(k, c). (k, case findByPk s1 c of
                      None \<Rightarrow> Rejected (ChildrenTicketDoesNotExist c)
                    | Some t \<Rightarrow> Resolved (t\<lparr>parentId := Some p\<rparr>))) calls"
    by (rule Cons.IH)
  then show ?case
    by (simp only: foldl_Cons call step) (simp add: s1 st1 childOutcome_after_update)
qed

lemma firstRejection_outcomes:
  "firstRejection (map (\<lambda>(k, c). (k, case findByPk s c of
                      None \<Rightarrow> Rejected (ChildrenTicketDoesNotExist c)
                    | Some t \<Rightarrow> Resolved (f t))) calls) =
     map_option ChildrenTicketDoesNotExist (find (\<lambda>c. findByPk s c = None) (map snd calls))"
  by (induction calls) (auto split: option.splits)

lemma snd_addChildrenToTicketReturningArray:
  "findByPk s p \<noteq> None \<Longrightarrow>
   snd (addChildrenToTicketReturningArray s p cs order) =
     (case promise_all (length cs)
             (map (\<lambda>(k, c). (k, case findByPk s c of
                      None \<Rightarrow> Rejected (ChildrenTicketDoesNotExist c)
                    | Some t \<Rightarrow> Resolved (t\<lparr>parentId := Some p\<rparr>))) (callbacks cs order)) of
        Resolved res \<Rightarrow> Resolved (VTickets res)
      | Rejected e \<Rightarrow> Rejected e
      | Pending \<Rightarrow> Pending)"
proof -
  assume known: "findByPk s p \<noteq> None"
  then obtain t where t: "findByPk s p = Some t" by auto
  obtain s' st where f: "foldl (addChildPromise p) (s, []) (callbacks cs order) = (s', st)"
    by (cases "foldl (addChildPromise p) (s, []) (callbacks cs order)")
  have "st = map (\<lambda>(k, c). (k, case findByPk s c of
                      None \<Rightarrow> Rejected (ChildrenTicketDoesNotExist c)
                    | Some t \<Rightarrow> Resolved (t\<lparr>parentId := Some p\<rparr>))) (callbacks cs order)"
    using snd_foldl_addChildPromise [OF known, of "[]" "callbacks cs order"] f by simp
  then show ?thesis
    by (simp add: addChildrenToTicketReturningArray_def t f)
qed

lemma addChildrenToTicketReturningArray_first_unknown:
  "findByPk s p \<noteq> None \<Longrightarrow>
   find (\<lambda>c. findByPk s c = None) (map snd (callbacks cs order)) = Some c \<Longrightarrow>
   snd (addChildrenToTicketReturningArray s p cs order) = Rejected (ChildrenTicketDoesNotExist c)"
  by (simp add: snd_addChildrenToTicketReturningArray promise_all_def firstRejection_outcomes)

lemma some_unknown_called:
  assumes "callbackOrder cs order" and "\<exists>c \<in> set cs. findByPk s c = None"
  shows "\<exists>c \<in> set cs. findByPk s c = None \<and>
           find (\<lambda>c. findByPk s c = None) (map snd (callbacks cs order)) = Some c"
proof -
  have all: "set (map snd (callbacks cs order)) = set cs" using assms(1) by (rule called_all)
  with assms(2) have "find (\<lambda>c. findByPk s c = None) (map snd (callbacks cs order)) \<noteq> None"
    by (simp only: find_None_iff) blast
  then obtain c where c: "find (\<lambda>c. findByPk s c = None) (map snd (callbacks cs order)) = Some c"
    by auto
  then have "findByPk s c = None" and "c \<in> set (map snd (callbacks cs order))"
    by (auto simp: find_Some_iff)
  with all c show ?thesis by auto
qed

lemma outcome_at:
  "map_of (map (\<lambda>(k, c). (k, g c)) (callbacks cs order)) k =
     (if k \<in> set order \<and> k < length cs then Some (g (cs ! k)) else None)"
proof -
  have "map (\<lambda>(k, c). (k, g c)) (callbacks cs order) =
          map (\<lambda>k. (k, g (cs ! k))) (filter (\<lambda>k. k < length cs) order)"
    by (simp add: callbacks_def)
  then show ?thesis by (simp add: map_of_map_restrict restrict_map_def)
qed

lemma those_all_Some:
  "\<forall>x \<in> set xs. G x \<noteq> None \<Longrightarrow> those (map G xs) = Some (List.map_filter G xs)"
  by (induction xs) (auto simp: List.map_filter_simps)

lemma addChildrenToTicketReturningArray_all_known:
  assumes known: "findByPk s p \<noteq> None" and order: "callbackOrder cs order"
    and all: "\<forall>c \<in> set cs. findByPk s c \<noteq> None"
  shows "snd (addChildrenToTicketReturningArray s p cs order) =
     Resolved (VTickets (List.map_filter
        (\<lambda>c. map_option (\<lambda>t. t\<lparr>parentId := Some p\<rparr>) (findByPk s c)) cs))"
proof -
  let ?g = "\<lambda>c. case findByPk s c of
                      None \<Rightarrow> Rejected (ChildrenTicketDoesNotExist c)
                    | Some t \<Rightarrow> Resolved (t\<lparr>parentId := Some p\<rparr>)"
  let ?G = "\<lambda>c. map_option (\<lambda>t. t\<lparr>parentId := Some p\<rparr>) (findByPk s c)"
  let ?st = "map (\<lambda>(k, c). (k, ?g c)) (callbacks cs order)"
  have called: "set (map snd (callbacks cs order)) = set cs" using order by (rule called_all)
  have "find (\<lambda>c. findByPk s c = None) (map snd (callbacks cs order)) = None"
    using all called by (simp only: find_None_iff) blast
  then have norej: "firstRejection ?st = None"
    by (simp add: firstRejection_outcomes)
  have ord: "set order = {0..<length cs}" using order by (simp add: callbackOrder_def)
  have at: "resolvedAt ?st k = ?G (cs ! k)" if "k < length cs" for k
    using that ord by (simp add: resolvedAt_def outcome_at split: option.splits)
  have "map (resolvedAt ?st) [0..<length cs] = map (\<lambda>k. ?G (cs ! k)) [0..<length cs]"
    using at by simp
  also have "\<dots> = map ?G (map ((!) cs) [0..<length cs])" by simp
  also have "\<dots> = map ?G cs" by (simp only: map_nth)
  finally have "those (map (resolvedAt ?st) [0..<length cs]) = Some (List.map_filter ?G cs)"
    using all by (simp add: those_all_Some)
  with norej have "promise_all (length cs) ?st = Resolved (List.map_filter ?G cs)"
    by (simp add: promise_all_def)
  then show ?thesis
    using known by (simp add: snd_addChildrenToTicketReturningArray)
qed

lemma snd_addChild_settled:
  "pr \<noteq> Pending \<Longrightarrow> snd (addChild p (s, pr) c) = pr"
  by (cases pr) (simp_all add: addChild_def split: option.splits sum.splits)

lemma snd_foldl_addChild_settled:
  "pr \<noteq> Pending \<Longrightarrow> snd (foldl (addChild p) (s, pr) cs) = pr"
proof (induction cs arbitrary: s pr)
  case Nil
  then show ?case by simp
next
  case (Cons c cs)
  obtain s1 pr1 where step: "addChild p (s, pr) c = (s1, pr1)" by (cases "addChild p (s, pr) c")
  have "pr1 = pr" using snd_addChild_settled [OF Cons.prems, of p s c] step by simp
  with Cons show ?case by (simp add: step)
qed

lemma snd_addChildrenToTicket_first:
  "findByPk s p \<noteq> None \<Longrightarrow> map snd (callbacks cs order) = c # rest \<Longrightarrow>
   snd (addChildrenToTicket s p cs order) =
     (case findByPk s c of
        None \<Rightarrow> Rejected (ChildrenTicketDoesNotExist c)
      | Some t \<Rightarrow> Resolved (VTicket (t\<lparr>parentId := Some p\<rparr>)))"
proof -
  assume known: "findByPk s p \<noteq> None" and calls: "map snd (callbacks cs order) = c # rest"
  then obtain u where u: "findByPk s p = Some u" by auto
  obtain s1 pr1 where step: "addChild p (s, Pending) c = (s1, pr1)"
    by (cases "addChild p (s, Pending) c")
  have pr1: "pr1 = (case findByPk s c of
        None \<Rightarrow> Rejected (ChildrenTicketDoesNotExist c)
      | Some t \<Rightarrow> Resolved (VTicket (t\<lparr>parentId := Some p\<rparr>)))"
    using step known by (auto simp: addChild_def update_parentId_known split: option.splits)
  then have "pr1 \<noteq> Pending" by (simp split: option.splits)
  then have "snd (foldl (addChild p) (s1, pr1) rest) = pr1" by (rule snd_foldl_addChild_settled)
  then show ?thesis by (simp add: addChildrenToTicket_def u calls step pr1)
qed

subsection \<open>Acyclicity after each mutation\<close>

lemma parentRel_reparent:
  "parentRel (s\<lparr>rows := map (\<lambda>r. if ticketId r \<in> set cs then r\<lparr>parentId := Some p\<rparr> else r) (rows s)\<rparr>)
     \<subseteq> parentRel s \<union> (\<lambda>c. (c, p)) ` set cs"
  using parentEdges_reparent [of cs p "rows s"] by (simp add: parentRel_def)

lemma acyclic_reparent:
  assumes "acyclicStore s" and "\<forall>c \<in> set cs. \<not> reaches s p c"
  shows "acyclicStore (s\<lparr>rows := map (\<lambda>r. if ticketId r \<in> set cs then r\<lparr>parentId := Some p\<rparr> else r) (rows s)\<rparr>)"
proof -
  have "acyclic (parentRel s \<union> (\<lambda>c. (c, p)) ` set cs)"
    using assms by (intro acyclic_add_edges) (simp_all add: acyclicStore_acyclic reaches_rtrancl)
  then show ?thesis
    unfolding acyclicStore_acyclic using parentRel_reparent by (rule acyclic_subset)
qed

lemma acyclic_createTicket: "acyclicStore s \<Longrightarrow> acyclicStore (fst (createTicket s ttl d))"
  by (cases "create s ttl d") (auto simp: createTicket_def acyclicStore_acyclic parentRel_create)

lemma acyclic_updateTicket: "acyclicStore s \<Longrightarrow> acyclicStore (fst (updateTicket s i ttl))"
  by (simp add: fst_updateTicket acyclicStore_acyclic parentRel_same_fields)

lemma acyclic_toggleTicket: "acyclicStore s \<Longrightarrow> acyclicStore (fst (toggleTicket s i b))"
  by (simp add: fst_toggleTicket acyclicStore_acyclic parentRel_same_fields)

lemma acyclic_removeTicket: "acyclicStore s \<Longrightarrow> acyclicStore (fst (removeTicket s i))"
proof (cases "findByPk s i")
  case None
  assume "acyclicStore s"
  with None show ?thesis by (simp add: removeTicket_def)
next
  case (Some t)
  assume "acyclicStore s"
  then have "acyclic (parentRel s)" by (simp add: acyclicStore_acyclic)
  then have "acyclic (parentRel (destroy s t))"
    using parentRel_destroy by (rule acyclic_subset)
  with Some show ?thesis by (simp add: removeTicket_def acyclicStore_acyclic)
qed

lemma acyclic_removeParentFromTicket:
  "acyclicStore s \<Longrightarrow> acyclicStore (fst (removeParentFromTicket s i))"
proof -
  assume "acyclicStore s"
  then have "acyclic (parentRel s)" by (simp add: acyclicStore_acyclic)
  moreover have "{(a, b) \<in> parentRel s. a \<noteq> i} \<subseteq> parentRel s" by blast
  ultimately have "acyclic {(a, b) \<in> parentRel s. a \<noteq> i}" by (rule acyclic_subset)
  then show ?thesis
    by (simp add: fst_removeParentFromTicket acyclicStore_acyclic parentRel_clear_parent)
qed

lemma acyclic_addChildren:
  assumes "acyclicStore s" and "\<forall>c \<in> set cs. \<not> reaches s p c"
  shows "acyclicStore (fst (addChildrenToTicket s p cs order))"
    and "acyclicStore (fst (addChildrenToTicketReturningArray s p cs order))"
proof -
  have "\<forall>c \<in> set (map snd (callbacks cs order)). \<not> reaches s p c"
    using assms(2) called_subset [of cs order] by blast
  then have called: "acyclicStore
     (s\<lparr>rows := map (\<lambda>r. if ticketId r \<in> set (map snd (callbacks cs order))
                          then r\<lparr>parentId := Some p\<rparr> else r) (rows s)\<rparr>)"
    by (rule acyclic_reparent [OF assms(1)])
  show "acyclicStore (fst (addChildrenToTicket s p cs order))"
  proof (cases "findByPk s p")
    case None
    then show ?thesis using assms(1) by (simp add: addChildren_unknown_parent)
  next
    case (Some t)
    then show ?thesis using called by (simp add: fst_addChildrenToTicket_called)
  qed
  show "acyclicStore (fst (addChildrenToTicketReturningArray s p cs order))"
  proof (cases "findByPk s p")
    case None
    then show ?thesis using assms(1) by (simp add: addChildren_unknown_parent)
  next
    case (Some t)
    then show ?thesis using called by (simp add: fst_addChildrenToTicketReturningArray_called)
  qed
qed

section \<open>Acyclicity (C1)\<close>

text \<open>
  C1, as the spec states it: acyclicity is preserved by every operation, and
  \<^verbatim>\<open>setParentOfTicket(parentId, childId)\<close> fails with \<open>CycleDetected\<close>, without touching the
  store, whenever the ancestor chain from \<open>parentId\<close> reaches \<open>childId\<close>. In the acyclic
  store \<open>epicWithStory\<close> ticket 2 is a child of ticket 1, so the chain from 2 reaches 1;
  yet making 2 the parent of 1 is resolved with the updated ticket 1, and in the store it
  leaves the chain from ticket 1 comes back to ticket 1.
\<close>

theorem setParentOfTicket_cycle_counterexample:
  "acyclicStore epicWithStory \<and> reaches epicWithStory 2 1 \<and>
   snd (setParentOfTicket epicWithStory 2 1) = Resolved (VTicket (epic\<lparr>parentId := Some 2\<rparr>)) \<and>
   revisits (fst (setParentOfTicket epicWithStory 2 1)) 1"
proof -
  have a: "acyclicStore epicWithStory"
    by (simp add: acyclicStore_acyclic parentRel_def concrete_defs acyclic_no_edges)
  have b: "reaches epicWithStory 2 1"
    by (auto simp: reaches_rtrancl parentRel_def concrete_defs)
  have c: "snd (setParentOfTicket epicWithStory 2 1) = Resolved (VTicket (epic\<lparr>parentId := Some 2\<rparr>))"
    by (simp add: setParentOfTicket_def findByPk_def update_parentId_def concrete_defs)
  have "parentRel (fst (setParentOfTicket epicWithStory 2 1)) = {(1, 2), (2, 1)}"
    by (simp add: setParentOfTicket_def findByPk_def update_parentId_def update_row_def
          parentRel_def concrete_defs)
  moreover have "((1::nat), 1) \<in> {(1, 2), (2, 1)}\<^sup>+"
    by (rule trancl_trans [of _ 2]) auto
  ultimately have d: "revisits (fst (setParentOfTicket epicWithStory 2 1)) 1"
    by (simp add: revisits_def)
  from a b c d show ?thesis by simp
qed

text \<open>
  C1, amended: from an acyclic store, \<^verbatim>\<open>createTicket\<close>, \<^verbatim>\<open>updateTicket\<close>, \<^verbatim>\<open>toggleTicket\<close>,
  \<^verbatim>\<open>removeTicket\<close> and \<^verbatim>\<open>removeParentFromTicket\<close> leave an acyclic store.
  \<^verbatim>\<open>setParentOfTicket(parentId, childId)\<close> checks for no cycle: for an existing child and
  an existing proposed parent it succeeds, sets the parent and returns the updated child,
  and the store it leaves is acyclic exactly when the ancestor chain from \<open>parentId\<close>
  (\<open>parentId\<close> itself included) does not reach \<open>childId\<close>; for an unknown child it leaves
  the store as it was. The two bulk reassignments leave an acyclic store, in whatever order
  their lookups call back, when the chain from the parent reaches none of the listed
  children.
\<close>

theorem acyclicity_without_cycle_check:
  "acyclicStore s \<Longrightarrow>
     acyclicStore (fst (createTicket s ttl done)) \<and>
     acyclicStore (fst (updateTicket s i ttl)) \<and>
     acyclicStore (fst (toggleTicket s i b)) \<and>
     acyclicStore (fst (removeTicket s i)) \<and>
     acyclicStore (fst (removeParentFromTicket s i)) \<and>
     (findByPk s c = Some t \<and> findByPk s p \<noteq> None \<longrightarrow>
        snd (setParentOfTicket s p c) = Resolved (VTicket (t\<lparr>parentId := Some p\<rparr>)) \<and>
        (acyclicStore (fst (setParentOfTicket s p c)) \<longleftrightarrow> \<not> reaches s p c)) \<and>
     (findByPk s c = None \<longrightarrow> fst (setParentOfTicket s p c) = s) \<and>
     ((\<forall>c \<in> set cs. \<not> reaches s p c) \<longrightarrow>
        acyclicStore (fst (addChildrenToTicket s p cs order)) \<and>
        acyclicStore (fst (addChildrenToTicketReturningArray s p cs order)))"
proof -
  assume ac: "acyclicStore s"
  have sp: "findByPk s c = Some t \<and> findByPk s p \<noteq> None \<longrightarrow>
        snd (setParentOfTicket s p c) = Resolved (VTicket (t\<lparr>parentId := Some p\<rparr>)) \<and>
        (acyclicStore (fst (setParentOfTicket s p c)) \<longleftrightarrow> \<not> reaches s p c)"
    using setParent_acyclic_iff [OF ac, of c p]
    by (simp add: fst_setParentOfTicket snd_setParentOfTicket)
  have un: "findByPk s c = None \<longrightarrow> fst (setParentOfTicket s p c) = s"
    by (simp add: setParentOfTicket_def)
  have bulk: "(\<forall>c \<in> set cs. \<not> reaches s p c) \<longrightarrow>
        acyclicStore (fst (addChildrenToTicket s p cs order)) \<and>
        acyclicStore (fst (addChildrenToTicketReturningArray s p cs order))"
    using acyclic_addChildren [OF ac] by blast
  show ?thesis
    using ac sp un bulk
    by (simp add: acyclic_createTicket acyclic_updateTicket acyclic_toggleTicket
          acyclic_removeTicket acyclic_removeParentFromTicket)
qed

theorem acyclicity_without_cycle_check_witness:
  "acyclicStore twoRoots \<and> findByPk twoRoots 2 = Some story \<and> findByPk twoRoots 1 \<noteq> None \<and>
   \<not> reaches twoRoots 1 2 \<and>
   snd (setParentOfTicket twoRoots 1 2) = Resolved (VTicket (story\<lparr>parentId := Some 1\<rparr>)) \<and>
   fst (setParentOfTicket twoRoots 1 2) = epicWithStory \<and>
   acyclicStore (fst (setParentOfTicket twoRoots 1 2)) \<and>
   acyclicStore (fst (addChildrenToTicket twoRoots 1 [2] [0])) \<and>
   acyclicStore (fst (removeTicket twoRoots 1)) \<and>
   acyclicStore epicWithStory \<and> findByPk epicWithStory 1 = Some epic \<and>
   findByPk epicWithStory 2 \<noteq> None \<and> reaches epicWithStory 2 1 \<and>
   \<not> acyclicStore (fst (setParentOfTicket epicWithStory 2 1))"
proof -
  have a: "acyclicStore twoRoots"
    by (simp add: acyclicStore_acyclic parentRel_def concrete_defs acyclic_no_edges)
  have k: "findByPk twoRoots 2 = Some story" by (simp add: findByPk_def concrete_defs)
  have kp: "findByPk twoRoots 1 \<noteq> None" by (simp add: findByPk_def concrete_defs)
  have nr: "\<not> reaches twoRoots 1 2" by (simp add: reaches_rtrancl parentRel_def concrete_defs)
  have st: "fst (setParentOfTicket twoRoots 1 2) = epicWithStory"
    by (simp add: setParentOfTicket_def findByPk_def update_parentId_def update_row_def concrete_defs)
  have a': "acyclicStore epicWithStory"
    by (simp add: acyclicStore_acyclic parentRel_def concrete_defs acyclic_no_edges)
  have k': "findByPk epicWithStory 1 = Some epic" by (simp add: findByPk_def concrete_defs)
  have kp': "findByPk epicWithStory 2 \<noteq> None" by (simp add: findByPk_def concrete_defs)
  have r': "reaches epicWithStory 2 1" by (auto simp: reaches_rtrancl parentRel_def concrete_defs)
  show ?thesis
    using acyclicity_without_cycle_check
        [OF a, where i = 1 and p = 1 and c = 2 and t = story and cs = "[2]" and order = "[0]"]
      acyclicity_without_cycle_check
        [OF a', where i = 1 and p = 2 and c = 1 and t = epic and cs = "[]" and order = "[]"]
      a k kp nr st a' k' kp' r'
    by simp
qed

section \<open>Self-parenting (C2)\<close>

text \<open>
  C2, as the spec states it: \<^verbatim>\<open>setParentOfTicket(id, id)\<close> always fails with \<open>SelfParent\<close>
  and leaves the ticket unmodified. The resolver compares nothing: in the store \<open>twoRoots\<close>
  the call for ticket 1 is resolved with the ticket, and the stored ticket 1 now has itself
  as its parent.
\<close>

theorem setParentOfTicket_self_parent_counterexample:
  "findByPk twoRoots 1 = Some epic \<and>
   snd (setParentOfTicket twoRoots 1 1) = Resolved (VTicket (epic\<lparr>parentId := Some 1\<rparr>)) \<and>
   findByPk (fst (setParentOfTicket twoRoots 1 1)) 1 = Some (epic\<lparr>parentId := Some 1\<rparr>)"
  by (simp add: setParentOfTicket_def findByPk_def update_parentId_def update_row_def
        concrete_defs)

text \<open>
  C2, amended: for the id of an existing ticket, \<^verbatim>\<open>setParentOfTicket(id, id)\<close> succeeds; it
  returns the ticket with \<^verbatim>\<open>parentId\<close> equal to its own id and stores it so. For an id
  without a ticket it leaves the store as it was.
\<close>

theorem setParentOfTicket_self_parent_succeeds:
  "(findByPk s i = Some t \<longrightarrow>
      snd (setParentOfTicket s i i) = Resolved (VTicket (t\<lparr>parentId := Some i\<rparr>)) \<and>
      findByPk (fst (setParentOfTicket s i i)) i = Some (t\<lparr>parentId := Some i\<rparr>)) \<and>
   (findByPk s i = None \<longrightarrow> fst (setParentOfTicket s i i) = s)"
proof (cases "findByPk s i")
  case None
  then show ?thesis by (simp add: setParentOfTicket_def)
next
  case (Some u)
  then have "ticketId u = i" by (simp add: findByPk_SomeD)
  with Some show ?thesis
    by (auto simp: setParentOfTicket_def update_parentId_known findByPk_update_row)
qed

theorem setParentOfTicket_self_parent_succeeds_witness:
  "findByPk twoRoots 2 = Some story \<and>
   snd (setParentOfTicket twoRoots 2 2) = Resolved (VTicket (story\<lparr>parentId := Some 2\<rparr>)) \<and>
   findByPk (fst (setParentOfTicket twoRoots 2 2)) 2 = Some (story\<lparr>parentId := Some 2\<rparr>) \<and>
   findByPk twoRoots 9 = None \<and>
   fst (setParentOfTicket twoRoots 9 9) = twoRoots"
proof -
  have known: "findByPk twoRoots 2 = Some story"
    by (simp add: findByPk_def concrete_defs)
  have unknown: "findByPk twoRoots 9 = None"
    by (simp add: findByPk_def concrete_defs)
  show ?thesis
    using setParentOfTicket_self_parent_succeeds [of twoRoots 2 story]
      setParentOfTicket_self_parent_succeeds [of twoRoots 9] known unknown
    by simp
qed

section \<open>Bulk reassignment with unknown children (C3)\<close>

text \<open>
  C3, as the spec states it: the two bulk reassignments are all-or-nothing, and an unknown
  child id makes the whole operation fail with the offending id and no reassignment. In the
  store \<open>twoRoots\<close>, with the children 2 (known) and 7 (unknown) for the parent 1, and in
  either order of the two callbacks, \<^verbatim>\<open>addChildrenToTicketReturningArray\<close> is rejected
  with the id 7, and after it as after \<^verbatim>\<open>addChildrenToTicket\<close> ticket 2, a root before,
  has been given the parent 1.
\<close>

theorem addChildren_partial_counterexample:
  "findByPk twoRoots 1 = Some epic \<and> findByPk twoRoots 2 = Some story \<and>
   findByPk twoRoots 7 = None \<and>
   snd (addChildrenToTicketReturningArray twoRoots 1 [2, 7] [0, 1]) =
     Rejected (ChildrenTicketDoesNotExist 7) \<and>
   snd (addChildrenToTicketReturningArray twoRoots 1 [2, 7] [1, 0]) =
     Rejected (ChildrenTicketDoesNotExist 7) \<and>
   findByPk (fst (addChildrenToTicketReturningArray twoRoots 1 [2, 7] [0, 1])) 2 =
     Some (story\<lparr>parentId := Some 1\<rparr>) \<and>
   findByPk (fst (addChildrenToTicketReturningArray twoRoots 1 [2, 7] [1, 0])) 2 =
     Some (story\<lparr>parentId := Some 1\<rparr>) \<and>
   findByPk (fst (addChildrenToTicket twoRoots 1 [2, 7] [0, 1])) 2 =
     Some (story\<lparr>parentId := Some 1\<rparr>) \<and>
   findByPk (fst (addChildrenToTicket twoRoots 1 [2, 7] [1, 0])) 2 =
     Some (story\<lparr>parentId := Some 1\<rparr>)"
  by (simp add: addChildrenToTicketReturningArray_def addChildPromise_def callbacks_def
        promise_all_def addChildrenToTicket_def addChild_def findByPk_def update_parentId_def
        update_row_def concrete_defs)

text \<open>
  C3, amended: the two bulk reassignments work child by child. For an existing parent \<open>p\<close>
  and any list of child ids, in whatever order the lookups call back, both leave the same
  store: every row whose id is listed has \<^verbatim>\<open>parentId\<close> \<open>p\<close>, whether or not other listed
  ids are unknown, and every other row is as it was. When some listed id is unknown,
  \<^verbatim>\<open>addChildrenToTicketReturningArray\<close> is rejected with the error that carries an unknown
  listed id: that of the unknown child whose lookup calls back first.
\<close>

theorem addChildren_per_child:
  "findByPk s p \<noteq> None \<Longrightarrow> callbackOrder cs order \<Longrightarrow>
     rows (fst (addChildrenToTicket s p cs order)) =
       map (\<lambda>r. if ticketId r \<in> set cs then r\<lparr>parentId := Some p\<rparr> else r) (rows s) \<and>
     fst (addChildrenToTicketReturningArray s p cs order) =
       fst (addChildrenToTicket s p cs order) \<and>
     ((\<exists>c \<in> set cs. findByPk s c = None) \<longrightarrow>
        (\<exists>c \<in> set cs. findByPk s c = None \<and>
           find (\<lambda>c. findByPk s c = None) (map snd (callbacks cs order)) = Some c \<and>
           snd (addChildrenToTicketReturningArray s p cs order) =
             Rejected (ChildrenTicketDoesNotExist c)))"
proof -
  assume known: "findByPk s p \<noteq> None" and order: "callbackOrder cs order"
  have rej: "(\<exists>c \<in> set cs. findByPk s c = None) \<longrightarrow>
        (\<exists>c \<in> set cs. findByPk s c = None \<and>
           find (\<lambda>c. findByPk s c = None) (map snd (callbacks cs order)) = Some c \<and>
           snd (addChildrenToTicketReturningArray s p cs order) =
             Rejected (ChildrenTicketDoesNotExist c))"
  proof
    assume "\<exists>c \<in> set cs. findByPk s c = None"
    with order obtain c where c: "c \<in> set cs" "findByPk s c = None"
        "find (\<lambda>c. findByPk s c = None) (map snd (callbacks cs order)) = Some c"
      using some_unknown_called by blast
    from known c(3)
    have "snd (addChildrenToTicketReturningArray s p cs order) =
            Rejected (ChildrenTicketDoesNotExist c)"
      by (rule addChildrenToTicketReturningArray_first_unknown)
    with c show "\<exists>c \<in> set cs. findByPk s c = None \<and>
           find (\<lambda>c. findByPk s c = None) (map snd (callbacks cs order)) = Some c \<and>
           snd (addChildrenToTicketReturningArray s p cs order) =
             Rejected (ChildrenTicketDoesNotExist c)"
      by blast
  qed
  show ?thesis
    using rej
    by (simp add: fst_addChildrenToTicket [OF known order]
          fst_addChildrenToTicketReturningArray [OF known order])
qed

theorem addChildren_per_child_witness:
  "findByPk twoRoots 1 \<noteq> None \<and> callbackOrder [2, 7, 8] [2, 0, 1] \<and>
   findByPk twoRoots 7 = None \<and> findByPk twoRoots 8 = None \<and>
   rows (fst (addChildrenToTicket twoRoots 1 [2, 7, 8] [2, 0, 1])) =
     [epic, story\<lparr>parentId := Some 1\<rparr>] \<and>
   fst (addChildrenToTicketReturningArray twoRoots 1 [2, 7, 8] [2, 0, 1]) =
     fst (addChildrenToTicket twoRoots 1 [2, 7, 8] [2, 0, 1]) \<and>
   snd (addChildrenToTicketReturningArray twoRoots 1 [2, 7, 8] [2, 0, 1]) =
     Rejected (ChildrenTicketDoesNotExist 8)"
proof -
  have known: "findByPk twoRoots 1 \<noteq> None" by (simp add: findByPk_def concrete_defs)
  have order: "callbackOrder [2, 7, 8] [2, 0, 1]" by (auto simp: callbackOrder_def)
  have u7: "findByPk twoRoots 7 = None" and u8: "findByPk twoRoots 8 = None"
    by (simp_all add: findByPk_def concrete_defs)
  have first: "find (\<lambda>c. findByPk twoRoots c = None) (map snd (callbacks [2, 7, 8] [2, 0, 1])) = Some 8"
    by (simp add: callbacks_def findByPk_def concrete_defs)
  have rows: "map (\<lambda>r. if ticketId r \<in> set [2, 7, 8] then r\<lparr>parentId := Some 1\<rparr> else r)
                (rows twoRoots) = [epic, story\<lparr>parentId := Some 1\<rparr>]"
    by (simp add: concrete_defs)
  show ?thesis
    using addChildren_per_child [OF known order] known order u7 u8 first rows by auto
qed

section \<open>Unknown ids answered with a boolean (C4)\<close>

text \<open>
  C4: \<^verbatim>\<open>removeTicket(id)\<close> returns \<^verbatim>\<open>true\<close> when the ticket existed and was deleted and
  \<^verbatim>\<open>false\<close> when there is no such ticket, and it is the only operation that answers an
  unknown id with a boolean instead of an error. In the store \<open>twoRoots\<close>, \<^verbatim>\<open>removeTicket\<close>
  does the first: \<^verbatim>\<open>false\<close> for the unknown id 9, \<^verbatim>\<open>true\<close> for ticket 2, which is gone
  afterwards. But \<^verbatim>\<open>setParentOfTicket\<close>, declared to return a \<^verbatim>\<open>Ticket!\<close>, answers the
  unknown child 9 with \<^verbatim>\<open>false\<close> as well.
\<close>

theorem setParentOfTicket_unknown_child_returns_false:
  "removeTicket twoRoots 9 = (twoRoots, Resolved (VBool False)) \<and>
   snd (removeTicket twoRoots 2) = Resolved (VBool True) \<and>
   findByPk (fst (removeTicket twoRoots 2)) 2 = None \<and>
   setParentOfTicket twoRoots 1 9 = (twoRoots, Resolved (VBool False))"
  by (simp add: removeTicket_def setParentOfTicket_def findByPk_def destroy_def concrete_defs)

section \<open>Deleting a ticket that has children (C5)\<close>

text \<open>
  C5: after \<^verbatim>\<open>removeTicket(id)\<close> has deleted an existing ticket, every other ticket whose
  \<^verbatim>\<open>parentId\<close> was \<open>id\<close> is still stored, with \<^verbatim>\<open>parentId\<close> null, and is among the result
  of the roots query; exactly the rows of the deleted ticket are gone, and no row points to
  the deleted id any more. The resolver only calls \<^verbatim>\<open>destroy\<close>: the orphaning is that of
  the model layer.
\<close>

theorem removeTicket_orphans_children:
  "findByPk s i \<noteq> None \<Longrightarrow>
     snd (removeTicket s i) = Resolved (VBool True) \<and>
     map ticketId (rows (fst (removeTicket s i))) = filter (\<lambda>j. j \<noteq> i) (map ticketId (rows s)) \<and>
     (\<forall>t \<in> set (rows s). ticketId t \<noteq> i \<and> parentId t = Some i \<longrightarrow>
         t\<lparr>parentId := None\<rparr> \<in> set (rows (fst (removeTicket s i))) \<and>
         t\<lparr>parentId := None\<rparr> \<in> set (tickets (fst (removeTicket s i)))) \<and>
     (\<forall>t \<in> set (rows (fst (removeTicket s i))). parentId t \<noteq> Some i)"
proof -
  assume "findByPk s i \<noteq> None"
  then obtain u where u: "findByPk s i = Some u" by auto
  then have ui: "ticketId u = i" by (simp add: findByPk_SomeD)
  have st: "fst (removeTicket s i) = destroy s u" and res: "snd (removeTicket s i) = Resolved (VBool True)"
    using u by (simp_all add: removeTicket_def)
  have ids: "map ticketId (rows (destroy s u)) = filter (\<lambda>j. j \<noteq> i) (map ticketId (rows s))"
    by (simp add: destroy_def ui filter_map comp_def)
  have orph: "\<forall>t \<in> set (rows s). ticketId t \<noteq> i \<and> parentId t = Some i \<longrightarrow>
         t\<lparr>parentId := None\<rparr> \<in> set (rows (destroy s u)) \<and>
         t\<lparr>parentId := None\<rparr> \<in> set (tickets (destroy s u))"
    by (force simp: destroy_def ui tickets_def findAll_parentId_def)
  have none: "\<forall>t \<in> set (rows (destroy s u)). parentId t \<noteq> Some i"
    by (auto simp: destroy_def ui)
  show ?thesis using res ids orph none by (simp add: st)
qed

theorem removeTicket_orphans_children_witness:
  "findByPk epicWithStory 1 \<noteq> None \<and>
   story\<lparr>parentId := Some 1\<rparr> \<in> set (rows epicWithStory) \<and>
   snd (removeTicket epicWithStory 1) = Resolved (VBool True) \<and>
   map ticketId (rows (fst (removeTicket epicWithStory 1))) = [2] \<and>
   story \<in> set (tickets (fst (removeTicket epicWithStory 1)))"
proof -
  have known: "findByPk epicWithStory 1 \<noteq> None" by (simp add: findByPk_def concrete_defs)
  have child: "story\<lparr>parentId := Some 1\<rparr> \<in> set (rows epicWithStory)" by (simp add: concrete_defs)
  have "story\<lparr>parentId := Some 1\<rparr>\<lparr>parentId := None\<rparr> \<in> set (tickets (fst (removeTicket epicWithStory 1)))"
    using removeTicket_orphans_children [OF known] child by (simp add: concrete_defs)
  then have "story \<in> set (tickets (fst (removeTicket epicWithStory 1)))" by (simp add: concrete_defs)
  moreover have "map ticketId (rows (fst (removeTicket epicWithStory 1))) = [2]"
    using removeTicket_orphans_children [OF known] by (simp add: concrete_defs)
  ultimately show ?thesis using removeTicket_orphans_children [OF known] known child by simp
qed

section \<open>Duplicate children (C6)\<close>

text \<open>
  C6: a duplicate in the list of children changes nothing:
  \<^verbatim>\<open>addChildrenToTicket(p, [c, c])\<close> leaves the same store as
  \<^verbatim>\<open>addChildrenToTicket(p, [c])\<close>, for every store, parent and child (existing or not) and
  in whatever order the lookups call back.
\<close>

theorem addChildrenToTicket_duplicate_idempotent:
  "callbackOrder [c, c] order2 \<Longrightarrow> callbackOrder [c] order1 \<Longrightarrow>
   fst (addChildrenToTicket s p [c, c] order2) = fst (addChildrenToTicket s p [c] order1)"
proof (cases "findByPk s p")
  case None
  then show ?thesis by (simp add: addChildren_unknown_parent)
next
  case (Some t)
  assume o2: "callbackOrder [c, c] order2" and o1: "callbackOrder [c] order1"
  have known: "findByPk s p \<noteq> None" using Some by simp
  have "set [c, c] = set [c]" by simp
  then show ?thesis
    by (simp only: fst_addChildrenToTicket [OF known o2] fst_addChildrenToTicket [OF known o1])
qed

theorem addChildrenToTicket_duplicate_idempotent_witness:
  "callbackOrder [2, 2] [1, 0] \<and> callbackOrder [2] [0] \<and>
   fst (addChildrenToTicket twoRoots 1 [2, 2] [1, 0]) = fst (addChildrenToTicket twoRoots 1 [2] [0]) \<and>
   fst (addChildrenToTicket twoRoots 1 [2] [0]) = epicWithStory"
proof -
  have o2: "callbackOrder [2, 2] [1, 0]" by (auto simp: callbackOrder_def)
  have o1: "callbackOrder [2] [0]" by (auto simp: callbackOrder_def)
  have "fst (addChildrenToTicket twoRoots 1 [2] [0]) = epicWithStory"
    by (simp add: addChildrenToTicket_def addChild_def callbacks_def findByPk_def
          update_parentId_def update_row_def concrete_defs)
  then show ?thesis
    using addChildrenToTicket_duplicate_idempotent [OF o2 o1, of twoRoots 1] o2 o1 by simp
qed

section \<open>Detaching an unknown ticket (C7)\<close>

text \<open>
  C7: \<^verbatim>\<open>removeParentFromTicket(id)\<close> fails with \<open>NotFound\<close> when no ticket has that id. In
  the store \<open>twoRoots\<close> the call for the unknown id 9 is resolved with \<^verbatim>\<open>false\<close>, where
  \<^verbatim>\<open>toggleTicket\<close> on the same id throws \<^verbatim>\<open>'Ticket not found'\<close>.
\<close>

theorem removeParentFromTicket_unknown_returns_false:
  "removeParentFromTicket twoRoots 9 = (twoRoots, Resolved (VBool False)) \<and>
   toggleTicket twoRoots 9 True = (twoRoots, Rejected TicketNotFound)"
  by (simp add: removeParentFromTicket_def toggleTicket_def findByPk_def concrete_defs)

section \<open>What the bulk reassignment returns (C8)\<close>

text \<open>
  C8: on success \<^verbatim>\<open>addChildrenToTicket(parentId, childIds)\<close> returns the updated parent. In
  the store \<open>twoRoots\<close>, adding ticket 2 to ticket 1 is resolved with ticket 2, the first
  child, not with ticket 1; and with an empty list of children the promise is never
  settled. (A list of one child has one order of callbacks, the empty list has the empty
  one.)
\<close>

theorem addChildrenToTicket_returns_first_child:
  "findByPk twoRoots 1 = Some epic \<and>
   snd (addChildrenToTicket twoRoots 1 [2] [0]) = Resolved (VTicket (story\<lparr>parentId := Some 1\<rparr>)) \<and>
   snd (addChildrenToTicket twoRoots 1 [] []) = Pending"
  by (simp add: addChildrenToTicket_def addChild_def callbacks_def findByPk_def
        update_parentId_def update_row_def concrete_defs)

section \<open>Empty titles (C9)\<close>

text \<open>
  C9: creating a ticket with an empty title fails with \<open>ValidationError\<close> and creates
  nothing; updating the title of an existing ticket to the empty string fails with
  \<open>ValidationError\<close> and changes nothing; \<^verbatim>\<open>updateTicket\<close> on an id without a ticket fails
  with \<^verbatim>\<open>'Ticket not found'\<close>. The resolvers validate nothing themselves: the two
  validation errors are those of the model layer.
\<close>

theorem empty_title_ValidationError:
  "createTicket s [] done = (s, Rejected ValidationError) \<and>
   (findByPk s i \<noteq> None \<longrightarrow> updateTicket s i [] = (s, Rejected ValidationError)) \<and>
   (findByPk s j = None \<longrightarrow> updateTicket s j ttl = (s, Rejected TicketNotFound))"
  by (auto simp: createTicket_def create_def updateTicket_def update_title_def)

theorem empty_title_ValidationError_witness:
  "createTicket twoRoots [] None = (twoRoots, Rejected ValidationError) \<and>
   findByPk twoRoots 1 \<noteq> None \<and>
   updateTicket twoRoots 1 [] = (twoRoots, Rejected ValidationError) \<and>
   findByPk twoRoots 9 = None \<and>
   updateTicket twoRoots 9 ''Saga'' = (twoRoots, Rejected TicketNotFound)"
proof -
  have known: "findByPk twoRoots 1 \<noteq> None"
    by (simp add: findByPk_def concrete_defs)
  have unknown: "findByPk twoRoots 9 = None"
    by (simp add: findByPk_def concrete_defs)
  show ?thesis
    using empty_title_ValidationError [of twoRoots None 1 9 "''Saga''"] known unknown
    by simp
qed

section \<open>The frame of the two field updates (C10)\<close>

text \<open>
  C10: \<^verbatim>\<open>updateTicket(id, title)\<close> changes only the title and \<^verbatim>\<open>toggleTicket(id, isCompleted)\<close>
  only the completion flag. Row by row, the store after either mutation has the same ids
  and parent ids as before, the respective other field is as before, every row of another
  ticket is the row it was, and no row is added or removed.
\<close>

theorem updateTicket_toggleTicket_frame:
  "nextId (fst (updateTicket s i ttl)) = nextId s \<and>
   length (rows (fst (updateTicket s i ttl))) = length (rows s) \<and>
   (\<forall>k < length (rows s).
      ticketId (rows (fst (updateTicket s i ttl)) ! k) = ticketId (rows s ! k) \<and>
      parentId (rows (fst (updateTicket s i ttl)) ! k) = parentId (rows s ! k) \<and>
      isCompleted (rows (fst (updateTicket s i ttl)) ! k) = isCompleted (rows s ! k) \<and>
      (ticketId (rows s ! k) \<noteq> i \<longrightarrow> rows (fst (updateTicket s i ttl)) ! k = rows s ! k)) \<and>
   nextId (fst (toggleTicket s i b)) = nextId s \<and>
   length (rows (fst (toggleTicket s i b))) = length (rows s) \<and>
   (\<forall>k < length (rows s).
      ticketId (rows (fst (toggleTicket s i b)) ! k) = ticketId (rows s ! k) \<and>
      parentId (rows (fst (toggleTicket s i b)) ! k) = parentId (rows s ! k) \<and>
      title (rows (fst (toggleTicket s i b)) ! k) = title (rows s ! k) \<and>
      (ticketId (rows s ! k) \<noteq> i \<longrightarrow> rows (fst (toggleTicket s i b)) ! k = rows s ! k))"
  by (simp add: fst_updateTicket fst_toggleTicket rows_update_row nextId_update_row)

theorem updateTicket_toggleTicket_frame_witness:
  "rows (fst (updateTicket epicWithStory 2 ''Saga'')) =
     [epic, story\<lparr>parentId := Some 1, title := ''Saga''\<rparr>] \<and>
   rows (fst (toggleTicket epicWithStory 2 True)) =
     [epic, story\<lparr>parentId := Some 1, isCompleted := True\<rparr>] \<and>
   ticketId (rows (fst (updateTicket epicWithStory 2 ''Saga'')) ! 0) \<noteq> 2 \<and>
   rows (fst (updateTicket epicWithStory 2 ''Saga'')) ! 0 = rows epicWithStory ! 0 \<and>
   parentId (rows (fst (updateTicket epicWithStory 2 ''Saga'')) ! 1) = parentId (rows epicWithStory ! 1) \<and>
   rows (fst (toggleTicket epicWithStory 2 True)) ! 0 = rows epicWithStory ! 0 \<and>
   title (rows (fst (toggleTicket epicWithStory 2 True)) ! 1) = title (rows epicWithStory ! 1)"
proof -
  have len: "length (rows epicWithStory) = 2" by (simp add: concrete_defs)
  have upd: "rows (fst (updateTicket epicWithStory 2 ''Saga'')) =
     [epic, story\<lparr>parentId := Some 1, title := ''Saga''\<rparr>]"
    by (simp add: updateTicket_def update_title_def update_row_def findByPk_def concrete_defs)
  have tog: "rows (fst (toggleTicket epicWithStory 2 True)) =
     [epic, story\<lparr>parentId := Some 1, isCompleted := True\<rparr>]"
    by (simp add: toggleTicket_def update_isCompleted_def update_row_def findByPk_def concrete_defs)
  have first: "ticketId (rows epicWithStory ! 0) \<noteq> 2" by (simp add: concrete_defs)
  show ?thesis
    using updateTicket_toggleTicket_frame [of epicWithStory 2 "''Saga''" True] len upd tog first
    by (simp add: concrete_defs)
qed

end
